theory Spec2Isabelle
  imports Main "HOL-Library.Sublist" "HOL-Library.Word"
begin

section \<open>The routing document (vpn_manager.go)\<close>

text \<open>
  \<^verbatim>\<open>type VPNStatus string\<close> with its three constants is an enumeration.
\<close>

datatype VPNStatus = VPNStatusEnabled | VPNStatusDisabled | VPNStatusUnknown

text \<open>
  The structs \<^verbatim>\<open>Rule\<close>, \<^verbatim>\<open>RoutingConfig\<close> and \<^verbatim>\<open>XrayConfig\<close>, field by field.
  The three \<^verbatim>\<open>interface{}\<close> fields hold whatever value the JSON decoder produced; the
  program never inspects them, so their type is the parameter \<open>'v\<close>. A \<^verbatim>\<open>nil\<close>
  slice and an empty slice are both the empty list. The pointer \<^verbatim>\<open>*RoutingConfig\<close>
  is an option: \<open>None\<close> is \<^verbatim>\<open>nil\<close>.
\<close>

record 'v Rule =
  Type :: string
  InboundTag :: "string list"
  OutboundTag :: string
  Network :: string
  Domain :: 'v
  IP :: 'v
  Port :: string
  Protocol :: 'v

record 'v RoutingConfig =
  DomainStrategy :: string
  Rules :: "'v Rule list"

record 'v XrayConfig =
  Routing :: "'v RoutingConfig option"

subsection \<open>isTargetRule\<close>

text \<open>
  The loop over \<^verbatim>\<open>rule.InboundTag\<close>, with the two flags it sets as the loop state:
  \<^verbatim>\<open>if tag == "redirect" { hasRedirect = true } else if tag == "tproxy" { hasTproxy = true }\<close>.
\<close>

fun scanInboundTag :: "string list \<Rightarrow> bool \<times> bool \<Rightarrow> bool \<times> bool" where
  "scanInboundTag [] (hasRedirect, hasTproxy) = (hasRedirect, hasTproxy)"
| "scanInboundTag (tag # tags) (hasRedirect, hasTproxy) =
     (if tag = ''redirect'' then scanInboundTag tags (True, hasTproxy)
      else if tag = ''tproxy'' then scanInboundTag tags (hasRedirect, True)
      else scanInboundTag tags (hasRedirect, hasTproxy))"

definition isTargetRule :: "('v, 'z) Rule_scheme \<Rightarrow> bool" where
  "isTargetRule rule =
     (case scanInboundTag (InboundTag rule) (False, False) of
        (hasRedirect, hasTproxy) \<Rightarrow>
          let hasCorrectNetwork = (Network rule = ''tcp,udp'')
          in hasRedirect \<and> hasTproxy \<and> hasCorrectNetwork)"

subsection \<open>The remote host as seen through SSHClient (ssh_client.go)\<close>

text \<open>
  The program reaches the router only through \<^verbatim>\<open>ExecuteCommand\<close>. The JSON text of the
  configuration file is identified with what \<^verbatim>\<open>json.Unmarshal\<close> makes of it: either it does
  not decode into an \<^verbatim>\<open>XrayConfig\<close>, or it is the decoded document.
\<close>

datatype 'v content = NotJSON | Json "'v XrayConfig"

text \<open>
  The command lines the program sends: \<^verbatim>\<open>cat path\<close>, \<^verbatim>\<open>cp path path.backup.$(date ...)\<close>,
  the here-document that overwrites the file, \<^verbatim>\<open>xkeen -restart\<close> and \<^verbatim>\<open>xkeen -status\<close>.
\<close>

datatype 'v command = Cat | CpBackup | CatHeredoc "'v content" | XkeenRestart | XkeenStatus

text \<open>
  The remote host: the configuration file, the text \<^verbatim>\<open>xkeen -status\<close> prints, which command
  lines fail (a lost connection, a failed session and a non-zero exit status all make
  \<^verbatim>\<open>ExecuteCommand\<close> return an error), and the commands executed so far, oldest first.
\<close>

record 'v SSHClient =
  remoteFile :: "'v content"
  statusOutput :: string
  failing :: "'v command \<Rightarrow> bool"
  executed :: "'v command list"

datatype error =
    ErrReadConfigFile
  | ErrParseConfigJSON
  | ErrNoRoutingConfiguration
  | ErrNoRoutingRules
  | ErrLastRuleNotDefault
  | ErrMarshalConfig
  | ErrWriteFile
  | ErrWriteConfig
  | ErrTargetRuleNotFound
  | ErrInvalidJSON
  | ErrRestartService
  | ErrServiceStatus

text \<open>
  \<^verbatim>\<open>ExecuteCommand\<close>: the command is run (and recorded); the boolean is \<^verbatim>\<open>err != nil\<close>. A
  here-document that runs without error replaces the file; one that fails is taken to leave
  the file as it was.
\<close>

definition ExecuteCommand :: "'v command \<Rightarrow> 'v SSHClient \<Rightarrow> bool \<times> 'v SSHClient" where
  "ExecuteCommand cmd s =
     (let s' = s\<lparr>executed := executed s @ [cmd]\<rparr>
      in if failing s cmd then (True, s')
         else (False, case cmd of CatHeredoc c \<Rightarrow> s'\<lparr>remoteFile := c\<rparr> | _ \<Rightarrow> s'))"

definition ReadFile :: "'v SSHClient \<Rightarrow> 'v content option \<times> 'v SSHClient" where
  "ReadFile s =
     (case ExecuteCommand Cat s of
        (True, s') \<Rightarrow> (None, s')
      | (False, s') \<Rightarrow> (Some (remoteFile s'), s'))"

text \<open>\<^verbatim>\<open>WriteFile\<close>: a failed backup is logged only; the write's own failure is returned.\<close>

definition WriteFile :: "'v content \<Rightarrow> 'v SSHClient \<Rightarrow> error option \<times> 'v SSHClient" where
  "WriteFile c s =
     (case ExecuteCommand CpBackup s of
        (_, s1) \<Rightarrow>
          (case ExecuteCommand (CatHeredoc c) s1 of
             (True, s2) \<Rightarrow> (Some ErrWriteFile, s2)
           | (False, s2) \<Rightarrow> (None, s2)))"

definition RestartService :: "'v SSHClient \<Rightarrow> error option \<times> 'v SSHClient" where
  "RestartService s =
     (case ExecuteCommand XkeenRestart s of
        (True, s') \<Rightarrow> (Some ErrRestartService, s')
      | (False, s') \<Rightarrow> (None, s'))"

subsection \<open>encoding/json\<close>

text \<open>
  \<^verbatim>\<open>json.Unmarshal\<close> fails on text that does not decode. \<^verbatim>\<open>json.MarshalIndent\<close> returns
  the text of the document; on a document that came out of \<^verbatim>\<open>Unmarshal\<close> it has no error to
  report, and the caller's error branch is kept as the \<open>None\<close> case.
\<close>

definition Unmarshal :: "'v content \<Rightarrow> 'v XrayConfig option" where
  "Unmarshal c = (case c of NotJSON \<Rightarrow> None | Json config \<Rightarrow> Some config)"

definition MarshalIndent :: "'v XrayConfig \<Rightarrow> 'v content option" where
  "MarshalIndent config = Some (Json config)"

subsection \<open>GetStatus\<close>

text \<open>
  The loop \<^verbatim>\<open>for _, rule := range config.Routing.Rules\<close>: the first target rule decides, by
  the switch on its outbound tag; falling out of the loop is the error. The result is the
  pair the Go function returns, \<open>None\<close> for a \<^verbatim>\<open>nil\<close> error.
\<close>

fun statusOfRules :: "'v Rule list \<Rightarrow> VPNStatus \<times> error option" where
  "statusOfRules [] = (VPNStatusUnknown, Some ErrTargetRuleNotFound)"
| "statusOfRules (rule # rules) =
     (if isTargetRule rule then
        (if OutboundTag rule = ''vless-reality'' then (VPNStatusEnabled, None)
         else if OutboundTag rule = ''direct'' then (VPNStatusDisabled, None)
         else (VPNStatusUnknown, None))
      else statusOfRules rules)"

definition GetStatus :: "'v SSHClient \<Rightarrow> (VPNStatus \<times> error option) \<times> 'v SSHClient" where
  "GetStatus s =
     (case ReadFile s of
        (None, s1) \<Rightarrow> ((VPNStatusUnknown, Some ErrReadConfigFile), s1)
      | (Some configContent, s1) \<Rightarrow>
          (case Unmarshal configContent of
             None \<Rightarrow> ((VPNStatusUnknown, Some ErrParseConfigJSON), s1)
           | Some config \<Rightarrow>
               (case Routing config of
                  None \<Rightarrow> ((VPNStatusUnknown, Some ErrNoRoutingConfiguration), s1)
                | Some routing \<Rightarrow> (statusOfRules (Rules routing), s1))))"

subsection \<open>setOutboundTag, EnableVPN, DisableVPN\<close>

definition restartXrayService :: "'v SSHClient \<Rightarrow> error option \<times> 'v SSHClient" where
  "restartXrayService s =
     (case RestartService s of
        (Some err, s') \<Rightarrow> (Some err, s')
      | (None, s') \<Rightarrow> (None, s'))"

definition setOutboundTag :: "string \<Rightarrow> 'v SSHClient \<Rightarrow> error option \<times> 'v SSHClient" where
  "setOutboundTag outboundTag s =
     (case ReadFile s of
        (None, s1) \<Rightarrow> (Some ErrReadConfigFile, s1)
      | (Some configContent, s1) \<Rightarrow>
          (case Unmarshal configContent of
             None \<Rightarrow> (Some ErrParseConfigJSON, s1)
           | Some config \<Rightarrow>
               (case Routing config of
                  None \<Rightarrow> (Some ErrNoRoutingConfiguration, s1)
                | Some routing \<Rightarrow>
                    if length (Rules routing) = 0 then (Some ErrNoRoutingRules, s1)
                    else
                      let lastRuleIndex = length (Rules routing) - 1;
                          lastRule = Rules routing ! lastRuleIndex
                      in if \<not> isTargetRule lastRule then (Some ErrLastRuleNotDefault, s1)
                         else
                           let config' = config\<lparr>Routing := Some (routing\<lparr>Rules :=
                                 (Rules routing)[lastRuleIndex :=
                                    (Rules routing ! lastRuleIndex)\<lparr>OutboundTag := outboundTag\<rparr>]\<rparr>)\<rparr>
                           in (case MarshalIndent config' of
                                 None \<Rightarrow> (Some ErrMarshalConfig, s1)
                               | Some updatedContent \<Rightarrow>
                                   (case WriteFile updatedContent s1 of
                                      (Some err, s2) \<Rightarrow> (Some ErrWriteConfig, s2)
                                    | (None, s2) \<Rightarrow>
                                        (case restartXrayService s2 of
                                           (_, s3) \<Rightarrow> (None, s3)))))))"

definition EnableVPN :: "'v SSHClient \<Rightarrow> error option \<times> 'v SSHClient" where
  "EnableVPN s = setOutboundTag ''vless-reality'' s"

definition DisableVPN :: "'v SSHClient \<Rightarrow> error option \<times> 'v SSHClient" where
  "DisableVPN s = setOutboundTag ''direct'' s"

subsection \<open>ValidateConfiguration\<close>

text \<open>The loop that sets \<^verbatim>\<open>targetRuleFound\<close> and breaks at the first target rule.\<close>

fun findTargetRule :: "'v Rule list \<Rightarrow> bool \<Rightarrow> bool" where
  "findTargetRule [] targetRuleFound = targetRuleFound"
| "findTargetRule (rule # rules) targetRuleFound =
     (if isTargetRule rule then True else findTargetRule rules targetRuleFound)"

definition ValidateConfiguration :: "'v SSHClient \<Rightarrow> error option \<times> 'v SSHClient" where
  "ValidateConfiguration s =
     (case ReadFile s of
        (None, s1) \<Rightarrow> (Some ErrReadConfigFile, s1)
      | (Some configContent, s1) \<Rightarrow>
          (case Unmarshal configContent of
             None \<Rightarrow> (Some ErrInvalidJSON, s1)
           | Some config \<Rightarrow>
               (case Routing config of
                  None \<Rightarrow> (Some ErrNoRoutingConfiguration, s1)
                | Some routing \<Rightarrow>
                    if \<not> findTargetRule (Rules routing) False
                    then (Some ErrTargetRuleNotFound, s1)
                    else (None, s1))))"

section \<open>The authorization cache (telegram_bot.go)\<close>

text \<open>
  \<^verbatim>\<open>authorizedUsers map[int64]VPNStatus\<close>, created empty by \<^verbatim>\<open>NewTelegramBot\<close>. The four
  functions below are the only places of the program that read or write it; each holds
  the mutex for its whole body, so each is one atomic step on the map.
\<close>

type_synonym int64 = "64 word"

type_synonym authorizedUsers = "int64 \<rightharpoonup> VPNStatus"

definition NewTelegramBot :: authorizedUsers where
  "NewTelegramBot = Map.empty"

definition authorizeUser :: "int64 \<Rightarrow> VPNStatus \<Rightarrow> authorizedUsers \<Rightarrow> authorizedUsers" where
  "authorizeUser userID initialStatus users = users(userID \<mapsto> initialStatus)"

definition isUserAuthorized :: "int64 \<Rightarrow> authorizedUsers \<Rightarrow> bool" where
  "isUserAuthorized userID users = (case users userID of Some _ \<Rightarrow> True | None \<Rightarrow> False)"

definition getCachedStatus :: "int64 \<Rightarrow> authorizedUsers \<Rightarrow> VPNStatus" where
  "getCachedStatus userID users =
     (case users userID of Some status \<Rightarrow> status | None \<Rightarrow> VPNStatusUnknown)"

definition updateCachedStatus :: "int64 \<Rightarrow> VPNStatus \<Rightarrow> authorizedUsers \<Rightarrow> authorizedUsers" where
  "updateCachedStatus userID status users =
     (case users userID of Some _ \<Rightarrow> users(userID \<mapsto> status) | None \<Rightarrow> users)"

text \<open>
  A cache operation is a call of one of the four functions; the two readers leave the map
  as it is.
\<close>

datatype cacheOp =
    Authorize int64 VPNStatus
  | Update int64 VPNStatus
  | IsAuthorized int64
  | GetCached int64

fun cacheStep :: "authorizedUsers \<Rightarrow> cacheOp \<Rightarrow> authorizedUsers" where
  "cacheStep users (Authorize userID initialStatus) = authorizeUser userID initialStatus users"
| "cacheStep users (Update userID status) = updateCachedStatus userID status users"
| "cacheStep users (IsAuthorized userID) = users"
| "cacheStep users (GetCached userID) = users"

definition cacheRun :: "authorizedUsers \<Rightarrow> cacheOp list \<Rightarrow> authorizedUsers" where
  "cacheRun users ops = foldl cacheStep users ops"

section \<open>The service status (ssh_client.go, telegram_bot.go)\<close>

subsection \<open>The functions of package strings the code calls\<close>

text \<open>
  A Go string is a sequence of bytes, here a list of \<^typ>\<open>char\<close>. \<^verbatim>\<open>strings.Contains\<close>
  looks for a contiguous run of bytes.
\<close>

definition strings_Contains :: "string \<Rightarrow> string \<Rightarrow> bool" where
  "strings_Contains s substr = sublist substr s"

text \<open>\<^verbatim>\<open>strings.Split\<close> at a one-byte separator: always at least one piece.\<close>

fun strings_Split :: "string \<Rightarrow> char \<Rightarrow> string list" where
  "strings_Split [] sep = [[]]"
| "strings_Split (c # cs) sep =
     (if c = sep then [] # strings_Split cs sep
      else (case strings_Split cs sep of
              [] \<Rightarrow> [[c]]
            | piece # pieces \<Rightarrow> (c # piece) # pieces))"

fun strings_Join :: "string list \<Rightarrow> string \<Rightarrow> string" where
  "strings_Join [] sep = []"
| "strings_Join [piece] sep = piece"
| "strings_Join (piece # pieces) sep = piece @ sep @ strings_Join pieces sep"

text \<open>
  \<^verbatim>\<open>strings.ReplaceAll\<close> for a non-empty \<^verbatim>\<open>old\<close> (every call here passes a literal):
  the non-overlapping occurrences, leftmost first.
\<close>

fun strings_ReplaceAll :: "string \<Rightarrow> string \<Rightarrow> string \<Rightarrow> string" where
  "strings_ReplaceAll [] old new = []"
| "strings_ReplaceAll (c # cs) old new =
     (if old \<noteq> [] \<and> prefix old (c # cs)
      then new @ strings_ReplaceAll (drop (length old) (c # cs)) old new
      else c # strings_ReplaceAll cs old new)"

text \<open>
  \<^verbatim>\<open>strings.TrimSpace\<close> removes the leading and the trailing runes that
  \<^verbatim>\<open>unicode.IsSpace\<close> accepts. On bytes: the UTF-8 encodings of U+0009 to U+000D, U+0020,
  U+0085, U+00A0, U+1680, U+2000 to U+200A, U+2028, U+2029, U+202F, U+205F and U+3000. A
  valid encoding at the start (or at the end) of a string is what the decoder reads there, so
  trimming runes is dropping these byte sequences.
\<close>

definition whiteSpace :: "string list" where
  "whiteSpace =
     [[CHR 0x09], [CHR 0x0A], [CHR 0x0B], [CHR 0x0C], [CHR 0x0D], [CHR 0x20],
      [CHR 0xC2, CHR 0x85], [CHR 0xC2, CHR 0xA0],
      [CHR 0xE1, CHR 0x9A, CHR 0x80],
      [CHR 0xE2, CHR 0x80, CHR 0x80], [CHR 0xE2, CHR 0x80, CHR 0x81],
      [CHR 0xE2, CHR 0x80, CHR 0x82], [CHR 0xE2, CHR 0x80, CHR 0x83],
      [CHR 0xE2, CHR 0x80, CHR 0x84], [CHR 0xE2, CHR 0x80, CHR 0x85],
      [CHR 0xE2, CHR 0x80, CHR 0x86], [CHR 0xE2, CHR 0x80, CHR 0x87],
      [CHR 0xE2, CHR 0x80, CHR 0x88], [CHR 0xE2, CHR 0x80, CHR 0x89],
      [CHR 0xE2, CHR 0x80, CHR 0x8A],
      [CHR 0xE2, CHR 0x80, CHR 0xA8], [CHR 0xE2, CHR 0x80, CHR 0xA9],
      [CHR 0xE2, CHR 0x80, CHR 0xAF], [CHR 0xE2, CHR 0x81, CHR 0x9F],
      [CHR 0xE3, CHR 0x80, CHR 0x80]]"

function TrimLeftSpace :: "string \<Rightarrow> string" where
  "TrimLeftSpace s =
     (case List.find (\<lambda>w. prefix w s) whiteSpace of
        None \<Rightarrow> s
      | Some w \<Rightarrow> TrimLeftSpace (drop (length w) s))"
  by pat_completeness auto
termination
proof (relation "measure length")
  show "wf (measure length)" by simp
next
  fix s w :: string
  assume "List.find (\<lambda>w. prefix w s) whiteSpace = Some w"
  then have "w \<in> set whiteSpace" and "prefix w s"
    by (auto simp: find_Some_iff)
  then have "w \<noteq> []" and "length w \<le> length s"
    by (auto simp: whiteSpace_def prefix_length_le)
  then show "(drop (length w) s, s) \<in> measure length"
    by (cases w) auto
qed

function TrimRightSpace :: "string \<Rightarrow> string" where
  "TrimRightSpace s =
     (case List.find (\<lambda>w. suffix w s) whiteSpace of
        None \<Rightarrow> s
      | Some w \<Rightarrow> TrimRightSpace (take (length s - length w) s))"
  by pat_completeness auto
termination
proof (relation "measure length")
  show "wf (measure length)" by simp
next
  fix s w :: string
  assume "List.find (\<lambda>w. suffix w s) whiteSpace = Some w"
  then have "w \<in> set whiteSpace" and "suffix w s"
    by (auto simp: find_Some_iff)
  then have "w \<noteq> []" and "length w \<le> length s"
    by (auto simp: whiteSpace_def suffix_length_le)
  then show "(take (length s - length w) s, s) \<in> measure length"
    by (cases w) auto
qed

definition strings_TrimSpace :: "string \<Rightarrow> string" where
  "strings_TrimSpace s = TrimRightSpace (TrimLeftSpace s)"

subsection \<open>GetServiceStatus\<close>

text \<open>
  The loop over the lines of the output: each line is trimmed, and kept unless it is empty
  or contains \<^verbatim>\<open>applet not found\<close>.
\<close>

fun cleanLines :: "string list \<Rightarrow> string list" where
  "cleanLines [] = []"
| "cleanLines (line # lines) =
     (let line' = strings_TrimSpace line
      in if line' \<noteq> [] \<and> \<not> strings_Contains line' ''ps: applet not found''
            \<and> \<not> strings_Contains line' ''applet not found''
         then line' # cleanLines lines
         else cleanLines lines)"

definition GetServiceStatus :: "'v SSHClient \<Rightarrow> (error + string) \<times> 'v SSHClient" where
  "GetServiceStatus s =
     (case ExecuteCommand XkeenStatus s of
        (True, s') \<Rightarrow> (Inl ErrServiceStatus, s')
      | (False, s') \<Rightarrow>
          (let output = statusOutput s';
               lines = strings_Split output (CHR 0x0A);
               cleanOutput = strings_Join (cleanLines lines) [CHR 0x0A]
           in (Inr cleanOutput, s')))"

definition GetVPNServiceStatus :: "'v SSHClient \<Rightarrow> (error + string) \<times> 'v SSHClient" where
  "GetVPNServiceStatus s = GetServiceStatus s"

subsection \<open>handleServiceStatus\<close>

text \<open>
  The four replies of the handler, without the clock time the message text carries.
  The two byte strings are the UTF-8 of the Russian phrases of the source: "not started"
  (\<^verbatim>\<open>ne zapushchen\<close>) and "started" (\<^verbatim>\<open>zapushchen\<close>).
\<close>

datatype serviceReply = CheckFailed | ServiceStopped | ServiceRunning | ServiceUnknown

definition zapushchen :: string where
  "zapushchen =
     [CHR 0xD0, CHR 0xB7, CHR 0xD0, CHR 0xB0, CHR 0xD0, CHR 0xBF, CHR 0xD1, CHR 0x83,
      CHR 0xD1, CHR 0x89, CHR 0xD0, CHR 0xB5, CHR 0xD0, CHR 0xBD]"

definition ne_zapushchen :: string where
  "ne_zapushchen = [CHR 0xD0, CHR 0xBD, CHR 0xD0, CHR 0xB5, CHR 0x20] @ zapushchen"

text \<open>The four \<^verbatim>\<open>ReplaceAll\<close> calls and the \<^verbatim>\<open>TrimSpace\<close> that make \<^verbatim>\<open>cleanStatus\<close>.\<close>

definition cleanStatusText :: "string \<Rightarrow> string" where
  "cleanStatusText status =
     (let cleanStatus = strings_ReplaceAll status (CHR 0x1B # ''[31m'') [];
          cleanStatus = strings_ReplaceAll cleanStatus (CHR 0x1B # ''[0m'') [];
          cleanStatus = strings_ReplaceAll cleanStatus ''[31m'' [];
          cleanStatus = strings_ReplaceAll cleanStatus ''[0m'' [];
          cleanStatus = strings_TrimSpace cleanStatus
      in cleanStatus)"

definition handleServiceStatus :: "'v SSHClient \<Rightarrow> serviceReply \<times> 'v SSHClient" where
  "handleServiceStatus s =
     (case GetVPNServiceStatus s of
        (Inl err, s') \<Rightarrow> (CheckFailed, s')
      | (Inr status, s') \<Rightarrow>
          (let cleanStatus = cleanStatusText status
           in if strings_Contains cleanStatus ne_zapushchen then (ServiceStopped, s')
              else if strings_Contains cleanStatus zapushchen \<or> cleanStatus \<noteq> []
                   then (ServiceRunning, s')
                   else (ServiceUnknown, s')))"

section \<open>The cleaning of the status output, described step by step\<close>

text \<open>
  What the two functions above do to the output of \<^verbatim>\<open>xkeen -status\<close>, said without their
  loops and without the functions of package strings, to compare the code with.

  A run of white space is a sequence of encoded white-space characters. \<open>trimOf s t\<close>:
  \<open>t\<close> is \<open>s\<close> without a run of white space at the front and one at the back, and
  \<open>t\<close> itself neither starts nor ends with white space.
\<close>

inductive spaceRun :: "string \<Rightarrow> bool" where
  nothing: "spaceRun []"
| further: "w \<in> set whiteSpace \<Longrightarrow> spaceRun a \<Longrightarrow> spaceRun (w @ a)"

definition trimOf :: "string \<Rightarrow> string \<Rightarrow> bool" where
  "trimOf s t \<longleftrightarrow>
     (\<exists>a b. s = a @ t @ b \<and> spaceRun a \<and> spaceRun b)
     \<and> (\<forall>w \<in> set whiteSpace. \<not> prefix w t \<and> \<not> suffix w t)"

text \<open>
  \<open>removal old s t\<close>: \<open>t\<close> is \<open>s\<close> without its occurrences of \<open>old\<close>, taken
  leftmost first and without overlap: either \<open>old\<close> does not occur, or the text up to its
  first occurrence stays, the occurrence goes, and the rest is treated the same way.
\<close>

inductive removal :: "string \<Rightarrow> string \<Rightarrow> string \<Rightarrow> bool" for old :: string where
  absent: "\<not> sublist old s \<Longrightarrow> removal old s s"
| leftmost: "\<forall>i < length a. \<not> prefix old (drop i (a @ old @ b)) \<Longrightarrow> removal old b t
     \<Longrightarrow> removal old (a @ old @ b) (a @ t)"

text \<open>Lines joined by newline characters; the lines that are kept.\<close>

definition joinLines :: "string list \<Rightarrow> string" where
  "joinLines ls =
     (case ls of [] \<Rightarrow> [] | l # rest \<Rightarrow> l @ concat (map (\<lambda>x. CHR 0x0A # x) rest))"

definition keptLine :: "string \<Rightarrow> bool" where
  "keptLine l \<longleftrightarrow> l \<noteq> [] \<and> \<not> sublist ''applet not found'' l"

text \<open>
  \<open>cleanedAs raw t\<close>: the output \<open>raw\<close> consists of the lines \<open>ls\<close>; each line is
  trimmed; the trimmed lines that are empty or contain \<^verbatim>\<open>applet not found\<close> are dropped
  and the others joined; the occurrences of ESC\<^verbatim>\<open>[31m\<close>, then of ESC\<^verbatim>\<open>[0m\<close>, then of
  \<^verbatim>\<open>[31m\<close> without ESC, then of \<^verbatim>\<open>[0m\<close> without ESC are removed; the result is trimmed
  to \<open>t\<close>.
\<close>

definition cleanedAs :: "string \<Rightarrow> string \<Rightarrow> bool" where
  "cleanedAs raw t \<longleftrightarrow>
     (\<exists>ls trimmed r1 r2 r3 r4.
        ls \<noteq> [] \<and> raw = joinLines ls \<and> (\<forall>l \<in> set ls. CHR 0x0A \<notin> set l)
      \<and> list_all2 trimOf ls trimmed
      \<and> removal (CHR 0x1B # ''[31m'') (joinLines (filter keptLine trimmed)) r1
      \<and> removal (CHR 0x1B # ''[0m'') r1 r2
      \<and> removal ''[31m'' r2 r3
      \<and> removal ''[0m'' r3 r4
      \<and> trimOf r4 t)"

section \<open>Example routers\<close>

text \<open>
  The rule of the README's example configuration, with a given outbound tag; a DNS rule
  that is not a target rule; a router whose file holds the given rules; a router on which
  no command fails, and one on which only \<^verbatim>\<open>xkeen -restart\<close> fails; and a status output
  with the diagnostic line, colour codes and the "not started" phrase.
\<close>

definition defaultRule :: "string \<Rightarrow> unit Rule" where
  "defaultRule tag =
     \<lparr>Type = ''field'', InboundTag = [''redirect'', ''tproxy''], OutboundTag = tag,
      Network = ''tcp,udp'', Domain = (), IP = (), Port = [], Protocol = ()\<rparr>"

definition dnsRule :: "unit Rule" where
  "dnsRule =
     \<lparr>Type = ''field'', InboundTag = [''dns-in''], OutboundTag = ''dns-out'',
      Network = ''udp'', Domain = (), IP = (), Port = ''53'', Protocol = ()\<rparr>"

definition router :: "unit Rule list \<Rightarrow> string \<Rightarrow> (unit command \<Rightarrow> bool) \<Rightarrow> unit SSHClient" where
  "router rules raw fails =
     \<lparr>remoteFile = Json \<lparr>Routing = Some \<lparr>DomainStrategy = ''IPIfNonMatch'', Rules = rules\<rparr>\<rparr>,
      statusOutput = raw, failing = fails, executed = []\<rparr>"

definition reliable :: "unit command \<Rightarrow> bool" where
  "reliable cmd = False"

definition restartBroken :: "unit command \<Rightarrow> bool" where
  "restartBroken cmd = (cmd = XkeenRestart)"

definition stoppedOutput :: string where
  "stoppedOutput =
     CHR 0x1B # ''[31mps: applet not found'' @ CHR 0x1B # ''[0m\<newline>  '' @
     CHR 0x1B # ''[31mxray '' @ ne_zapushchen @ CHR 0x1B # ''[0m  \<newline>''"

text \<open>
  Two more status outputs, each one line without ESC and without white space at its ends:
  one carries the "not started" phrase and, later in the same line, the words
  \<^verbatim>\<open>applet not found\<close>; the other has the phrase interrupted by \<^verbatim>\<open>[31m\<close>.
\<close>

definition mixedLineOutput :: string where
  "mixedLineOutput = ''xray '' @ ne_zapushchen @ '', applet not found''"

definition bareCodeOutput :: string where
  "bareCodeOutput = [CHR 0xD0, CHR 0xBD, CHR 0xD0, CHR 0xB5, CHR 0x20] @ ''[31m'' @ zapushchen"

section \<open>What the functions compute\<close>

subsection \<open>isTargetRule\<close>

lemma scanInboundTag_flags:
  "scanInboundTag tags (a, b) =
     (a \<or> ''redirect'' \<in> set tags, b \<or> ''tproxy'' \<in> set tags)"
  by (induction tags arbitrary: a b) auto

lemma isTargetRule_iff:
  "isTargetRule rule \<longleftrightarrow>
     ''redirect'' \<in> set (InboundTag rule) \<and> ''tproxy'' \<in> set (InboundTag rule)
       \<and> Network rule = ''tcp,udp''"
  by (simp add: isTargetRule_def scanInboundTag_flags)

lemma isTargetRule_OutboundTag_update [simp]:
  "isTargetRule (rule\<lparr>OutboundTag := t\<rparr>) = isTargetRule rule"
  by (simp add: isTargetRule_iff)

lemma isTargetRule_defaultRule [simp]: "isTargetRule (defaultRule tag)"
  by (simp add: isTargetRule_iff defaultRule_def)

lemma isTargetRule_dnsRule [simp]: "\<not> isTargetRule dnsRule"
  by (simp add: isTargetRule_iff dnsRule_def)

lemma OutboundTag_defaultRule [simp]: "OutboundTag (defaultRule tag) = tag"
  by (simp add: defaultRule_def)

lemma router_sel [simp]:
  "remoteFile (router rules raw fails) =
     Json \<lparr>Routing = Some \<lparr>DomainStrategy = ''IPIfNonMatch'', Rules = rules\<rparr>\<rparr>"
  "statusOutput (router rules raw fails) = raw"
  "failing (router rules raw fails) = fails"
  "executed (router rules raw fails) = []"
  by (simp_all add: router_def)

subsection \<open>The SSH client\<close>

lemma ReadFile_eq:
  "ReadFile s =
     (if failing s Cat then None else Some (remoteFile s), s\<lparr>executed := executed s @ [Cat]\<rparr>)"
  by (simp add: ReadFile_def ExecuteCommand_def Let_def)

lemma WriteFile_eq:
  "WriteFile c s =
     (if failing s (CatHeredoc c)
      then (Some ErrWriteFile, s\<lparr>executed := executed s @ [CpBackup, CatHeredoc c]\<rparr>)
      else (None, s\<lparr>executed := executed s @ [CpBackup, CatHeredoc c], remoteFile := c\<rparr>))"
  by (simp add: WriteFile_def ExecuteCommand_def Let_def)

lemma restartXrayService_eq:
  "restartXrayService s =
     (if failing s XkeenRestart then Some ErrRestartService else None,
      s\<lparr>executed := executed s @ [XkeenRestart]\<rparr>)"
  by (simp add: restartXrayService_def RestartService_def ExecuteCommand_def Let_def)

lemma GetServiceStatus_eq:
  "GetServiceStatus s =
     (if failing s XkeenStatus then Inl ErrServiceStatus
      else Inr (strings_Join (cleanLines (strings_Split (statusOutput s) (CHR 0x0A))) [CHR 0x0A]),
      s\<lparr>executed := executed s @ [XkeenStatus]\<rparr>)"
  by (simp add: GetServiceStatus_def ExecuteCommand_def Let_def)

subsection \<open>The VPN manager, branch by branch\<close>

lemma last_index_update:
  "xs \<noteq> [] \<Longrightarrow> xs[length xs - Suc 0 := y] = butlast xs @ [y]"
  by (induction xs rule: rev_induct) (simp_all add: list_update_append)

lemma find_append_single:
  "List.find P (xs @ [y]) =
     (case List.find P xs of Some x \<Rightarrow> Some x | None \<Rightarrow> if P y then Some y else None)"
  by (induction xs) auto

lemma setOutboundTag_eq:
  "setOutboundTag T s =
     (let s1 = s\<lparr>executed := executed s @ [Cat]\<rparr>
      in if failing s Cat then (Some ErrReadConfigFile, s1)
         else (case remoteFile s of
                 NotJSON \<Rightarrow> (Some ErrParseConfigJSON, s1)
               | Json config \<Rightarrow>
                   (case Routing config of
                      None \<Rightarrow> (Some ErrNoRoutingConfiguration, s1)
                    | Some routing \<Rightarrow>
                        if Rules routing = [] then (Some ErrNoRoutingRules, s1)
                        else if \<not> isTargetRule (last (Rules routing))
                        then (Some ErrLastRuleNotDefault, s1)
                        else
                          let c = Json (config\<lparr>Routing := Some (routing\<lparr>Rules :=
                                    butlast (Rules routing) @
                                      [(last (Rules routing))\<lparr>OutboundTag := T\<rparr>]\<rparr>)\<rparr>)
                          in if failing s (CatHeredoc c)
                             then (Some ErrWriteConfig,
                                   s\<lparr>executed := executed s @ [Cat, CpBackup, CatHeredoc c]\<rparr>)
                             else (None,
                                   s\<lparr>executed :=
                                        executed s @ [Cat, CpBackup, CatHeredoc c, XkeenRestart],
                                      remoteFile := c\<rparr>))))"
  by (simp add: setOutboundTag_def ReadFile_eq Unmarshal_def MarshalIndent_def WriteFile_eq
      restartXrayService_eq Let_def last_index_update last_conv_nth
      split: content.split option.split)

lemma setOutboundTag_success:
  assumes "setOutboundTag T s = (None, s')"
  obtains config routing where
    "\<not> failing s Cat" "remoteFile s = Json config" "Routing config = Some routing"
    "Rules routing \<noteq> []" "isTargetRule (last (Rules routing))"
    "s' = s\<lparr>executed := executed s @
             [Cat, CpBackup,
              CatHeredoc (Json (config\<lparr>Routing := Some (routing\<lparr>Rules :=
                 butlast (Rules routing) @ [(last (Rules routing))\<lparr>OutboundTag := T\<rparr>]\<rparr>)\<rparr>)),
              XkeenRestart],
           remoteFile := Json (config\<lparr>Routing := Some (routing\<lparr>Rules :=
                 butlast (Rules routing) @ [(last (Rules routing))\<lparr>OutboundTag := T\<rparr>]\<rparr>)\<rparr>)\<rparr>"
  using assms
  by (auto simp: setOutboundTag_eq Let_def split: if_splits content.splits option.splits)

lemma statusOfRules_find:
  "statusOfRules rules =
     (case List.find isTargetRule rules of
        None \<Rightarrow> (VPNStatusUnknown, Some ErrTargetRuleNotFound)
      | Some rule \<Rightarrow>
          (if OutboundTag rule = ''vless-reality'' then VPNStatusEnabled
           else if OutboundTag rule = ''direct'' then VPNStatusDisabled
           else VPNStatusUnknown, None))"
  by (induction rules) auto

lemma GetStatus_eq:
  "GetStatus s =
     (if failing s Cat then (VPNStatusUnknown, Some ErrReadConfigFile)
      else (case remoteFile s of
              NotJSON \<Rightarrow> (VPNStatusUnknown, Some ErrParseConfigJSON)
            | Json config \<Rightarrow>
                (case Routing config of
                   None \<Rightarrow> (VPNStatusUnknown, Some ErrNoRoutingConfiguration)
                 | Some routing \<Rightarrow> statusOfRules (Rules routing))),
      s\<lparr>executed := executed s @ [Cat]\<rparr>)"
  by (simp add: GetStatus_def ReadFile_eq Unmarshal_def split: content.split option.split)

lemma findTargetRule_iff:
  "findTargetRule rules found \<longleftrightarrow> found \<or> (\<exists>rule \<in> set rules. isTargetRule rule)"
  by (induction rules) auto

lemma ValidateConfiguration_eq:
  "ValidateConfiguration s =
     (if failing s Cat then Some ErrReadConfigFile
      else (case remoteFile s of
              NotJSON \<Rightarrow> Some ErrInvalidJSON
            | Json config \<Rightarrow>
                (case Routing config of
                   None \<Rightarrow> Some ErrNoRoutingConfiguration
                 | Some routing \<Rightarrow>
                     if \<exists>rule \<in> set (Rules routing). isTargetRule rule then None
                     else Some ErrTargetRuleNotFound)),
      s\<lparr>executed := executed s @ [Cat]\<rparr>)"
  by (simp add: ValidateConfiguration_def ReadFile_eq Unmarshal_def findTargetRule_iff
      split: content.split option.split)

subsection \<open>The cache\<close>

lemma never_authorized:
  "users U = None \<Longrightarrow> \<forall>S. Authorize U S \<notin> set ops \<Longrightarrow> cacheRun users ops U = None"
  unfolding cacheRun_def
proof (induction ops arbitrary: users)
  case Nil
  then show ?case by simp
next
  case (Cons op ops)
  from Cons.prems have "cacheStep users op U = None"
    by (cases op) (auto simp: authorizeUser_def updateCachedStatus_def split: option.splits)
  with Cons show ?case by simp
qed

lemma cacheStep_keeps_authorized:
  "isUserAuthorized U users \<Longrightarrow> isUserAuthorized U (cacheStep users op)"
  by (cases op)
     (auto simp: isUserAuthorized_def authorizeUser_def updateCachedStatus_def
           split: option.splits)

subsection \<open>Substrings\<close>

lemma Contains_nonempty:
  "strings_Contains s substr \<Longrightarrow> substr \<noteq> [] \<Longrightarrow> s \<noteq> []"
  by (auto simp: strings_Contains_def)

subsection \<open>Lines\<close>

lemma Split_nonempty: "strings_Split s c \<noteq> []"
  by (induction s) (auto split: list.splits)

lemma Split_pieces: "p \<in> set (strings_Split s c) \<Longrightarrow> c \<notin> set p"
  by (induction s arbitrary: p) (auto split: list.splits if_splits)

lemma joinLines_Cons: "ls \<noteq> [] \<Longrightarrow> joinLines (l # ls) = l @ CHR 0x0A # joinLines ls"
  by (cases ls) (simp_all add: joinLines_def)

lemma joinLines_Split: "joinLines (strings_Split s (CHR 0x0A)) = s"
proof (induction s)
  case Nil
  then show ?case by (simp add: joinLines_def)
next
  case (Cons c s)
  then show ?case
    using Split_nonempty[of s "CHR 0x0A"]
    by (auto simp: joinLines_Cons split: list.splits) (simp_all add: joinLines_def)
qed

lemma Join_joinLines: "strings_Join ls [CHR 0x0A] = joinLines ls"
  by (induction ls "[CHR 0x0A]" rule: strings_Join.induct) (simp_all add: joinLines_def)

lemma Split_unique:
  "ls \<noteq> [] \<Longrightarrow> \<forall>l \<in> set ls. CHR 0x0A \<notin> set l \<Longrightarrow> strings_Split (joinLines ls) (CHR 0x0A) = ls"
proof (induction ls rule: list_nonempty_induct)
  case (single l)
  then have "CHR 0x0A \<notin> set l" by simp
  then show ?case by (induction l) (auto simp: joinLines_def)
next
  case (cons l ls)
  then have l: "CHR 0x0A \<notin> set l" and rest: "strings_Split (joinLines ls) (CHR 0x0A) = ls"
    by simp_all
  from l have "strings_Split (l @ CHR 0x0A # joinLines ls) (CHR 0x0A) = l # ls"
    by (induction l) (auto simp: rest)
  with cons.hyps show ?case by (simp add: joinLines_Cons)
qed

lemma applet_sub: "sublist ''applet not found'' ''ps: applet not found''"
  by code_simp

lemma cleanLines_filter: "cleanLines ls = filter keptLine (map strings_TrimSpace ls)"
proof (induction ls)
  case Nil
  then show ?case by simp
next
  case (Cons l ls)
  have "sublist ''ps: applet not found'' x \<Longrightarrow> sublist ''applet not found'' x" for x
    using applet_sub sublist_order.order_trans by blast
  with Cons show ?case
    by (auto simp: Let_def keptLine_def strings_Contains_def)
qed

subsection \<open>Trimming\<close>

lemma whiteSpace_nonempty: "w \<in> set whiteSpace \<Longrightarrow> w \<noteq> []"
  by (auto simp: whiteSpace_def)

lemma spaceRun_append: "spaceRun a \<Longrightarrow> spaceRun b \<Longrightarrow> spaceRun (a @ b)"
  by (induction rule: spaceRun.induct) (auto intro: spaceRun.intros)

lemma spaceRun_single: "w \<in> set whiteSpace \<Longrightarrow> spaceRun w"
  using spaceRun.further[OF _ spaceRun.nothing] by simp

lemma TrimLeftSpace_splits: "\<exists>a. s = a @ TrimLeftSpace s \<and> spaceRun a"
proof (induction s rule: TrimLeftSpace.induct)
  case (1 s)
  show ?case
  proof (cases "List.find (\<lambda>w. prefix w s) whiteSpace")
    case None
    then have "TrimLeftSpace s = s" by simp
    then show ?thesis using spaceRun.nothing by (intro exI[of _ "[]"]) simp
  next
    case (Some w)
    then have w: "w \<in> set whiteSpace" "prefix w s"
      by (auto simp: find_Some_iff)
    from 1[OF Some] obtain a where a: "drop (length w) s = a @ TrimLeftSpace (drop (length w) s)"
      "spaceRun a" by blast
    from w(2) have "s = w @ drop (length w) s" by (auto simp: prefix_def)
    with a(1) Some have "s = (w @ a) @ TrimLeftSpace s" by simp
    moreover have "spaceRun (w @ a)" using w(1) a(2) by (rule spaceRun.further)
    ultimately show ?thesis by blast
  qed
qed

lemma TrimLeftSpace_no_prefix: "w \<in> set whiteSpace \<Longrightarrow> \<not> prefix w (TrimLeftSpace s)"
proof (induction s rule: TrimLeftSpace.induct)
  case (1 s)
  show ?case
  proof (cases "List.find (\<lambda>w. prefix w s) whiteSpace")
    case None
    then have "TrimLeftSpace s = s" by simp
    moreover from None 1(2) have "\<not> prefix w s" by (simp add: find_None_iff)
    ultimately show ?thesis by simp
  next
    case (Some v)
    with 1 show ?thesis by simp
  qed
qed

lemma TrimRightSpace_splits: "\<exists>b. s = TrimRightSpace s @ b \<and> spaceRun b"
proof (induction s rule: TrimRightSpace.induct)
  case (1 s)
  show ?case
  proof (cases "List.find (\<lambda>w. suffix w s) whiteSpace")
    case None
    then have "TrimRightSpace s = s" by simp
    then show ?thesis using spaceRun.nothing by (intro exI[of _ "[]"]) simp
  next
    case (Some w)
    then have w: "w \<in> set whiteSpace" "suffix w s"
      by (auto simp: find_Some_iff)
    let ?u = "take (length s - length w) s"
    from 1[OF Some] obtain b where b: "?u = TrimRightSpace ?u @ b" "spaceRun b" by blast
    from w(2) have "s = ?u @ w" by (auto simp: suffix_def)
    with b(1) Some have "s = TrimRightSpace s @ (b @ w)"
      by (metis TrimRightSpace.simps append.assoc option.simps(5))
    moreover have "spaceRun (b @ w)"
      using b(2) w(1) by (simp add: spaceRun_append spaceRun_single)
    ultimately show ?thesis by blast
  qed
qed

lemma TrimRightSpace_no_suffix: "w \<in> set whiteSpace \<Longrightarrow> \<not> suffix w (TrimRightSpace s)"
proof (induction s rule: TrimRightSpace.induct)
  case (1 s)
  show ?case
  proof (cases "List.find (\<lambda>w. suffix w s) whiteSpace")
    case None
    then have "TrimRightSpace s = s" by simp
    moreover from None 1(2) have "\<not> suffix w s" by (simp add: find_None_iff)
    ultimately show ?thesis by simp
  next
    case (Some v)
    with 1 show ?thesis by simp
  qed
qed

lemma TrimRightSpace_prefix: "prefix (TrimRightSpace s) s"
  using TrimRightSpace_splits[of s] by (metis prefixI)

lemma TrimSpace_trimOf: "trimOf s (strings_TrimSpace s)"
proof -
  obtain a where a: "s = a @ TrimLeftSpace s" "spaceRun a"
    using TrimLeftSpace_splits by blast
  obtain b where b: "TrimLeftSpace s = TrimRightSpace (TrimLeftSpace s) @ b" "spaceRun b"
    using TrimRightSpace_splits by blast
  have "s = a @ strings_TrimSpace s @ b"
    using a(1) b(1) by (simp add: strings_TrimSpace_def)
  moreover have "\<not> prefix w (strings_TrimSpace s)" if "w \<in> set whiteSpace" for w
    using TrimLeftSpace_no_prefix[OF that, of s] TrimRightSpace_prefix[of "TrimLeftSpace s"]
    by (auto simp: strings_TrimSpace_def dest: prefix_order.trans)
  moreover have "\<not> suffix w (strings_TrimSpace s)" if "w \<in> set whiteSpace" for w
    using TrimRightSpace_no_suffix[OF that] by (simp add: strings_TrimSpace_def)
  ultimately show ?thesis
    using a(2) b(2) unfolding trimOf_def by blast
qed

subsection \<open>Removing occurrences\<close>

lemma ReplaceAll_absent: "\<not> sublist old s \<Longrightarrow> strings_ReplaceAll s old new = s"
proof (induction s)
  case Nil
  then show ?case by simp
next
  case (Cons c cs)
  then have "\<not> prefix old (c # cs)" and "\<not> sublist old cs"
    by (auto simp: sublist_Cons_right)
  with Cons.IH show ?case by simp
qed

lemma ReplaceAll_leftmost:
  assumes "old \<noteq> []"
    and "\<forall>i < length a. \<not> prefix old (drop i (a @ old @ b))"
  shows "strings_ReplaceAll (a @ old @ b) old new = a @ new @ strings_ReplaceAll b old new"
  using assms(2)
proof (induction a)
  case Nil
  from assms(1) obtain c cs where old: "old = c # cs" by (cases old) auto
  have "strings_ReplaceAll (old @ b) old new
      = new @ strings_ReplaceAll (drop (length old) (old @ b)) old new"
    unfolding old by simp
  then show ?case by simp
next
  case (Cons x a)
  from Cons.prems have first: "\<not> prefix old (x # a @ old @ b)"
    by (auto dest: spec[of _ 0])
  have "\<forall>i < length a. \<not> prefix old (drop i (a @ old @ b))"
  proof (intro allI impI)
    fix i assume "i < length a"
    then have "Suc i < length (x # a)" by simp
    with Cons.prems have "\<not> prefix old (drop (Suc i) ((x # a) @ old @ b))" by blast
    then show "\<not> prefix old (drop i (a @ old @ b))" by simp
  qed
  with Cons.IH first show ?case by simp
qed

lemma leftmost_occurrence:
  assumes "sublist old s"
  obtains a b where "s = a @ old @ b" "\<forall>i < length a. \<not> prefix old (drop i s)"
proof -
  from assms obtain p q where pq: "s = p @ old @ q" by (auto simp: sublist_def)
  define n where "n = (LEAST i. prefix old (drop i s))"
  have ex: "prefix old (drop (length p) s)" by (simp add: pq)
  then have n: "prefix old (drop n s)" unfolding n_def by (rule LeastI)
  have least: "\<not> prefix old (drop i s)" if "i < n" for i
    using that not_less_Least unfolding n_def by blast
  have "n \<le> length p" unfolding n_def using ex by (rule Least_le)
  then have "n \<le> length s" by (simp add: pq)
  from n obtain b where b: "drop n s = old @ b" by (auto simp: prefix_def)
  have "s = take n s @ old @ b" using b by (metis append_take_drop_id)
  moreover have "length (take n s) = n" using \<open>n \<le> length s\<close> by simp
  ultimately show ?thesis using least that by metis
qed

lemma ReplaceAll_removal:
  "old \<noteq> [] \<Longrightarrow> removal old s (strings_ReplaceAll s old [])"
proof (induction s rule: length_induct)
  case (1 s)
  show ?case
  proof (cases "sublist old s")
    case False
    then show ?thesis by (simp add: ReplaceAll_absent removal.absent)
  next
    case True
    then obtain a b where ab: "s = a @ old @ b" "\<forall>i < length a. \<not> prefix old (drop i s)"
      by (rule leftmost_occurrence)
    from ab(1) 1(2) have "length b < length s" by simp
    with 1 have "removal old b (strings_ReplaceAll b old [])" by blast
    with ab have "removal old (a @ old @ b) (a @ strings_ReplaceAll b old [])"
      by (intro removal.leftmost) simp_all
    moreover have "strings_ReplaceAll s old [] = a @ strings_ReplaceAll b old []"
      using ReplaceAll_leftmost[OF 1(2), of a b "[]"] ab by simp
    ultimately show ?thesis using ab(1) by simp
  qed
qed

lemma removal_unique:
  "removal old s t \<Longrightarrow> old \<noteq> [] \<Longrightarrow> t = strings_ReplaceAll s old []"
proof (induction rule: removal.induct)
  case (absent s)
  then show ?case by (simp add: ReplaceAll_absent)
next
  case (leftmost a b t)
  then show ?case using ReplaceAll_leftmost[of old a b "[]"] by simp
qed

subsection \<open>The step-by-step description is what the code computes\<close>

declare TrimLeftSpace.simps [simp del] TrimRightSpace.simps [simp del]

lemma whiteSpace_prefix_free_all:
  "list_all (\<lambda>w. list_all (\<lambda>v. prefix w v \<longrightarrow> w = v) whiteSpace) whiteSpace"
  by code_simp

lemma whiteSpace_prefix_free:
  "w \<in> set whiteSpace \<Longrightarrow> v \<in> set whiteSpace \<Longrightarrow> prefix w v \<Longrightarrow> w = v"
  using whiteSpace_prefix_free_all by (simp add: list_all_iff)

lemma whiteSpace_suffix_free_all:
  "list_all (\<lambda>w. list_all (\<lambda>v. suffix w v \<longrightarrow> w = v) whiteSpace) whiteSpace"
  by code_simp

lemma whiteSpace_suffix_free:
  "w \<in> set whiteSpace \<Longrightarrow> v \<in> set whiteSpace \<Longrightarrow> suffix w v \<Longrightarrow> w = v"
  using whiteSpace_suffix_free_all by (simp add: list_all_iff)

lemma whiteSpace_first_byte_all:
  "list_all (\<lambda>w. list_all (\<lambda>v. hd v \<notin> set (tl w)) whiteSpace) whiteSpace"
  by code_simp

lemma whiteSpace_first_byte:
  "w \<in> set whiteSpace \<Longrightarrow> v \<in> set whiteSpace \<Longrightarrow> hd v \<notin> set (tl w)"
  using whiteSpace_first_byte_all by (simp add: list_all_iff)

lemma TrimLeftSpace_id: "\<forall>w \<in> set whiteSpace. \<not> prefix w s \<Longrightarrow> TrimLeftSpace s = s"
proof -
  assume "\<forall>w \<in> set whiteSpace. \<not> prefix w s"
  then have "List.find (\<lambda>w. prefix w s) whiteSpace = None" by (simp add: find_None_iff)
  then show ?thesis by (subst TrimLeftSpace.simps) simp
qed

lemma TrimRightSpace_id: "\<forall>w \<in> set whiteSpace. \<not> suffix w s \<Longrightarrow> TrimRightSpace s = s"
proof -
  assume "\<forall>w \<in> set whiteSpace. \<not> suffix w s"
  then have "List.find (\<lambda>w. suffix w s) whiteSpace = None" by (simp add: find_None_iff)
  then show ?thesis by (subst TrimRightSpace.simps) simp
qed

lemma TrimLeftSpace_step:
  assumes "w \<in> set whiteSpace"
  shows "TrimLeftSpace (w @ u) = TrimLeftSpace u"
proof (cases "List.find (\<lambda>x. prefix x (w @ u)) whiteSpace")
  case None
  with assms have "\<not> prefix w (w @ u)" by (auto simp: find_None_iff)
  then show ?thesis by simp
next
  case (Some v)
  then have v: "v \<in> set whiteSpace" "prefix v (w @ u)" by (auto simp: find_Some_iff)
  have "prefix w (w @ u)" by simp
  with v(2) have "prefix v w \<or> prefix w v" by (rule prefix_same_cases)
  with assms v(1) have "v = w" by (auto dest: whiteSpace_prefix_free)
  with Some show ?thesis by (subst TrimLeftSpace.simps) simp
qed

lemma TrimLeftSpace_run: "spaceRun a \<Longrightarrow> TrimLeftSpace (a @ u) = TrimLeftSpace u"
  by (induction rule: spaceRun.induct) (simp_all add: TrimLeftSpace_step)

lemma TrimRightSpace_step:
  assumes "w \<in> set whiteSpace"
  shows "TrimRightSpace (u @ w) = TrimRightSpace u"
proof (cases "List.find (\<lambda>x. suffix x (u @ w)) whiteSpace")
  case None
  with assms have "\<not> suffix w (u @ w)" by (auto simp: find_None_iff)
  then show ?thesis by (simp add: suffix_def)
next
  case (Some v)
  then have v: "v \<in> set whiteSpace" "suffix v (u @ w)" by (auto simp: find_Some_iff)
  have "suffix w (u @ w)" by (simp add: suffix_def)
  with v(2) have "suffix v w \<or> suffix w v" by (rule suffix_same_cases)
  with assms v(1) have "v = w" by (auto dest: whiteSpace_suffix_free)
  with Some show ?thesis by (subst TrimRightSpace.simps) simp
qed

lemma TrimRightSpace_run: "spaceRun b \<Longrightarrow> TrimRightSpace (u @ b) = TrimRightSpace u"
proof (induction arbitrary: u rule: spaceRun.induct)
  case nothing
  then show ?case by simp
next
  case (further w a)
  have "TrimRightSpace (u @ w @ a) = TrimRightSpace ((u @ w) @ a)" by simp
  also have "\<dots> = TrimRightSpace (u @ w)" by (rule further.IH)
  also have "\<dots> = TrimRightSpace u" using further.hyps(1) by (rule TrimRightSpace_step)
  finally show ?case .
qed

lemma no_space_prefix_append:
  assumes t: "t \<noteq> []" "\<forall>w \<in> set whiteSpace. \<not> prefix w t"
    and b: "spaceRun b"
    and w: "w \<in> set whiteSpace"
  shows "\<not> prefix w (t @ b)"
proof
  assume "prefix w (t @ b)"
  with t(2) w obtain us where us: "w = t @ us" "prefix us b"
    by (auto simp: prefix_append)
  with t(2) w have "us \<noteq> []" by auto
  with us(2) have "b \<noteq> []" by auto
  with b obtain v a where v: "b = v @ a" "v \<in> set whiteSpace"
    by (cases b rule: spaceRun.cases) auto
  then have "v \<noteq> []" by (simp add: whiteSpace_nonempty)
  with v(1) have "hd b = hd v" by simp
  moreover from us(2) \<open>us \<noteq> []\<close> have "hd us = hd b" by (auto simp: prefix_def)
  moreover from us(1) t(1) \<open>us \<noteq> []\<close> have "hd us \<in> set (tl w)" by (cases t) auto
  ultimately show False using whiteSpace_first_byte[OF w v(2)] by simp
qed

lemma trimOf_unique:
  assumes "trimOf s t"
  shows "t = strings_TrimSpace s"
proof -
  from assms obtain a b where ab: "s = a @ t @ b" "spaceRun a" "spaceRun b"
    and np: "\<forall>w \<in> set whiteSpace. \<not> prefix w t"
    and ns: "\<forall>w \<in> set whiteSpace. \<not> suffix w t"
    unfolding trimOf_def by blast
  have left: "TrimLeftSpace s = TrimLeftSpace (t @ b)"
    using ab(1,2) by (simp add: TrimLeftSpace_run)
  show ?thesis
  proof (cases "t = []")
    case True
    have "TrimLeftSpace (b @ []) = TrimLeftSpace []" using ab(3) by (rule TrimLeftSpace_run)
    moreover have "TrimLeftSpace [] = []"
      by (rule TrimLeftSpace_id) (auto dest: whiteSpace_nonempty)
    moreover have "TrimRightSpace [] = []"
      by (rule TrimRightSpace_id) (auto dest: whiteSpace_nonempty)
    ultimately show ?thesis using True left by (simp add: strings_TrimSpace_def)
  next
    case False
    have "TrimLeftSpace (t @ b) = t @ b"
      using no_space_prefix_append[OF False np ab(3)] by (intro TrimLeftSpace_id) blast
    moreover have "TrimRightSpace (t @ b) = TrimRightSpace t"
      using ab(3) by (rule TrimRightSpace_run)
    moreover have "TrimRightSpace t = t" using ns by (rule TrimRightSpace_id)
    ultimately show ?thesis using left by (simp add: strings_TrimSpace_def)
  qed
qed

lemma list_all2_trimOf:
  "list_all2 trimOf ls trimmed \<longleftrightarrow> trimmed = map strings_TrimSpace ls"
proof
  assume "list_all2 trimOf ls trimmed"
  then show "trimmed = map strings_TrimSpace ls"
    by (induction rule: list_all2_induct) (auto dest: trimOf_unique)
next
  assume "trimmed = map strings_TrimSpace ls"
  then show "list_all2 trimOf ls trimmed"
    by (simp add: list_all2_conv_all_nth TrimSpace_trimOf)
qed

lemma removal_iff: "old \<noteq> [] \<Longrightarrow> removal old s t \<longleftrightarrow> t = strings_ReplaceAll s old []"
  using ReplaceAll_removal removal_unique by blast

lemma trimOf_iff: "trimOf s t \<longleftrightarrow> t = strings_TrimSpace s"
  using TrimSpace_trimOf trimOf_unique by blast

lemma cleanedAs_iff:
  "cleanedAs raw t \<longleftrightarrow>
     t = cleanStatusText
           (strings_Join (cleanLines (strings_Split raw (CHR 0x0A))) [CHR 0x0A])"
proof -
  have lines: "ls \<noteq> [] \<and> raw = joinLines ls \<and> (\<forall>l \<in> set ls. CHR 0x0A \<notin> set l)
      \<longleftrightarrow> ls = strings_Split raw (CHR 0x0A)" for ls
    using Split_unique[of ls] Split_nonempty[of raw "CHR 0x0A"] joinLines_Split[of raw]
      Split_pieces[of _ raw "CHR 0x0A"]
    by auto
  have "cleanedAs raw t \<longleftrightarrow>
      (\<exists>ls. (ls \<noteq> [] \<and> raw = joinLines ls \<and> (\<forall>l \<in> set ls. CHR 0x0A \<notin> set l))
         \<and> t = cleanStatusText (strings_Join (cleanLines ls) [CHR 0x0A]))"
    unfolding cleanedAs_def
    by (simp add: list_all2_trimOf removal_iff trimOf_iff cleanStatusText_def Let_def
        Join_joinLines cleanLines_filter conj_assoc)
  then show ?thesis by (simp add: lines)
qed

section \<open>The claims\<close>

subsection \<open>C1: the target-rule predicate\<close>

text \<open>
  C1, as amended. For every rule, isTargetRule holds exactly when both "redirect" and
  "tproxy" occur among the rule's inbound tags and the network string is the literal
  "tcp,udp". Further inbound tags do not matter: the loop only ever sets its two flags.
\<close>

theorem C1_isTargetRule_has_both_tags:
  "isTargetRule rule \<longleftrightarrow>
     {''redirect'', ''tproxy''} \<subseteq> set (InboundTag rule) \<and> Network rule = ''tcp,udp''"
  by (simp add: isTargetRule_iff)

text \<open>
  C1 as stated asks for the tag set to be exactly {"redirect", "tproxy"}. A rule with the
  three inbound tags "redirect", "tproxy", "dns" and network "tcp,udp" is a target rule
  although its tag set has an element more.
\<close>

theorem C1_exact_set_counterexample:
  "isTargetRule
     \<lparr>Type = ''field'', InboundTag = [''redirect'', ''tproxy'', ''dns''],
      OutboundTag = ''direct'', Network = ''tcp,udp'', Domain = (), IP = (),
      Port = [], Protocol = ()\<rparr>
   \<and> set [''redirect'', ''tproxy'', ''dns''] \<noteq> {''redirect'', ''tproxy''}"
proof -
  have "''dns'' \<in> set [''redirect'', ''tproxy'', ''dns'']" by simp
  moreover have "''dns'' \<notin> {''redirect'', ''tproxy''}" by simp
  ultimately have "set [''redirect'', ''tproxy'', ''dns''] \<noteq> {''redirect'', ''tproxy''}"
    by metis
  then show ?thesis by (simp add: isTargetRule_iff)
qed

subsection \<open>C2: a last rule that is not the target rule\<close>

text \<open>
  C2. When the file is read and decodes to a document whose routing section has at least
  one rule, and the last rule is not a target rule, setOutboundTag (so EnableVPN and
  DisableVPN) returns the error "last rule is not the expected default routing rule", the
  remote file is what it was, and the only command run is the \<^verbatim>\<open>cat\<close>: no backup, no write,
  no restart. Nothing is assumed about the earlier rules, so one of them may be a target
  rule.
\<close>

theorem C2_last_rule_not_default_refused:
  assumes "\<not> failing s Cat"
    and "remoteFile s = Json config"
    and "Routing config = Some routing"
    and "Rules routing \<noteq> []"
    and "\<not> isTargetRule (last (Rules routing))"
  shows "fst (setOutboundTag T s) = Some ErrLastRuleNotDefault
       \<and> remoteFile (snd (setOutboundTag T s)) = remoteFile s
       \<and> executed (snd (setOutboundTag T s)) = executed s @ [Cat]"
  using assms by (simp add: setOutboundTag_eq)

text \<open>The rules are a target rule followed by the DNS rule: the earlier rule matches.\<close>

theorem C2_witness:
  "fst (setOutboundTag ''vless-reality'' (router [defaultRule ''direct'', dnsRule] [] reliable))
     = Some ErrLastRuleNotDefault
   \<and> remoteFile (snd (setOutboundTag ''vless-reality''
        (router [defaultRule ''direct'', dnsRule] [] reliable)))
     = Json \<lparr>Routing = Some \<lparr>DomainStrategy = ''IPIfNonMatch'',
                               Rules = [defaultRule ''direct'', dnsRule]\<rparr>\<rparr>
   \<and> executed (snd (setOutboundTag ''vless-reality''
        (router [defaultRule ''direct'', dnsRule] [] reliable))) = [Cat]
   \<and> isTargetRule (defaultRule ''direct'')"
  using C2_last_rule_not_default_refused
    [of "router [defaultRule ''direct'', dnsRule] [] reliable"
        "\<lparr>Routing = Some \<lparr>DomainStrategy = ''IPIfNonMatch'',
                           Rules = [defaultRule ''direct'', dnsRule]\<rparr>\<rparr>"
        "\<lparr>DomainStrategy = ''IPIfNonMatch'', Rules = [defaultRule ''direct'', dnsRule]\<rparr>"
        "''vless-reality''"]
  by (simp add: reliable_def)

subsection \<open>C3: mutate, then read the status\<close>

text \<open>
  C3, as amended. Let setOutboundTag succeed with tag T, "vless-reality" or "direct", on a
  document in which the first target rule before the last rule, if there is one, already
  carries T. Then GetStatus on any router whose file is the one just written, and whose
  \<^verbatim>\<open>cat\<close> does not fail, returns Enabled for "vless-reality" and Disabled for "direct",
  with no error. (GetStatus reads the first target rule; setOutboundTag writes the last
  rule.)
\<close>

theorem C3_roundtrip_when_first_target_rule_carries_tag:
  assumes "setOutboundTag T s = (None, s')"
    and "T = ''vless-reality'' \<or> T = ''direct''"
    and "remoteFile s = Json config"
    and "Routing config = Some routing"
    and "\<forall>rule. List.find isTargetRule (butlast (Rules routing)) = Some rule
            \<longrightarrow> OutboundTag rule = T"
    and "remoteFile s'' = remoteFile s'"
    and "\<not> failing s'' Cat"
  shows "fst (GetStatus s'') =
           (if T = ''vless-reality'' then VPNStatusEnabled else VPNStatusDisabled, None)"
proof -
  from assms(1) obtain config0 routing0 where ok:
    "remoteFile s = Json config0" "Routing config0 = Some routing0"
    "isTargetRule (last (Rules routing0))"
    "remoteFile s' = Json (config0\<lparr>Routing := Some (routing0\<lparr>Rules :=
        butlast (Rules routing0) @ [(last (Rules routing0))\<lparr>OutboundTag := T\<rparr>]\<rparr>)\<rparr>)"
    by (rule setOutboundTag_success) simp
  with assms(3,4) have same: "config0 = config" "routing0 = routing" by simp_all
  show ?thesis
  proof (cases "List.find isTargetRule (butlast (Rules routing))")
    case None
    with ok same assms(2,6,7) show ?thesis
      by (auto simp: GetStatus_eq statusOfRules_find find_append_single)
  next
    case (Some rule)
    with assms(5) have "OutboundTag rule = T" by simp
    with Some ok same assms(2,6,7) show ?thesis
      by (auto simp: GetStatus_eq statusOfRules_find find_append_single)
  qed
qed

theorem C3_witness:
  "setOutboundTag ''vless-reality'' (router [dnsRule, defaultRule ''direct''] [] reliable)
     = (None, snd (EnableVPN (router [dnsRule, defaultRule ''direct''] [] reliable)))
   \<and> List.find isTargetRule (butlast [dnsRule, defaultRule ''direct'']) = None
   \<and> fst (GetStatus (snd (EnableVPN (router [dnsRule, defaultRule ''direct''] [] reliable))))
       = (VPNStatusEnabled, None)"
proof -
  let ?s = "router [dnsRule, defaultRule ''direct''] [] reliable"
  let ?s' = "snd (EnableVPN ?s)"
  have run: "setOutboundTag ''vless-reality'' ?s = (None, ?s')"
    by (simp add: EnableVPN_def setOutboundTag_eq reliable_def Let_def)
  have first: "List.find isTargetRule (butlast [dnsRule, defaultRule ''direct'']) = None"
    by simp
  have readable: "\<not> failing ?s' Cat"
    by (simp add: EnableVPN_def setOutboundTag_eq reliable_def Let_def)
  have "fst (GetStatus ?s') =
      (if ''vless-reality'' = ''vless-reality'' then VPNStatusEnabled else VPNStatusDisabled, None)"
    by (rule C3_roundtrip_when_first_target_rule_carries_tag
          [OF run _ _ _ _ refl readable,
           of "\<lparr>Routing = Some \<lparr>DomainStrategy = ''IPIfNonMatch'',
                                 Rules = [dnsRule, defaultRule ''direct'']\<rparr>\<rparr>"
              "\<lparr>DomainStrategy = ''IPIfNonMatch'', Rules = [dnsRule, defaultRule ''direct'']\<rparr>"])
       simp_all
  with run first show ?thesis by simp
qed

text \<open>
  C3 as stated covers every document on which the mutation succeeds. On a document with
  two target rules, both with outbound tag "direct", EnableVPN succeeds (it rewrites the
  second rule) and GetStatus on the result returns Disabled (it reads the first).
\<close>

theorem C3_two_target_rules_counterexample:
  "fst (EnableVPN (router [defaultRule ''direct'', defaultRule ''direct''] [] reliable)) = None
   \<and> fst (GetStatus (snd (EnableVPN
          (router [defaultRule ''direct'', defaultRule ''direct''] [] reliable))))
       = (VPNStatusDisabled, None)"
  by (simp add: EnableVPN_def setOutboundTag_eq GetStatus_eq reliable_def Let_def)

text \<open>
  The condition of the amended claim is also necessary: when the first target rule before
  the last carries another tag, the status read back is not the one of T.
\<close>

lemma roundtrip_fails_otherwise:
  assumes "setOutboundTag T s = (None, s')"
    and "T = ''vless-reality'' \<or> T = ''direct''"
    and "remoteFile s = Json config"
    and "Routing config = Some routing"
    and "List.find isTargetRule (butlast (Rules routing)) = Some rule"
    and "OutboundTag rule \<noteq> T"
    and "remoteFile s'' = remoteFile s'"
    and "\<not> failing s'' Cat"
  shows "fst (GetStatus s'') \<noteq>
           (if T = ''vless-reality'' then VPNStatusEnabled else VPNStatusDisabled, None)"
proof -
  from assms(1) obtain config0 routing0 where ok:
    "remoteFile s = Json config0" "Routing config0 = Some routing0"
    "remoteFile s' = Json (config0\<lparr>Routing := Some (routing0\<lparr>Rules :=
        butlast (Rules routing0) @ [(last (Rules routing0))\<lparr>OutboundTag := T\<rparr>]\<rparr>)\<rparr>)"
    by (rule setOutboundTag_success) simp
  with assms(3,4) have same: "config0 = config" "routing0 = routing" by simp_all
  with ok assms(2,5,6,7,8) show ?thesis
    by (auto simp: GetStatus_eq statusOfRules_find find_append_single)
qed

subsection \<open>C4: ValidateConfiguration\<close>

text \<open>
  C4, as amended. When the file is read and decodes to a document, ValidateConfiguration
  succeeds if and only if the routing section exists and at least one rule is a target
  rule. The loop stops at the first target rule and does not count them.
\<close>

theorem C4_validate_iff_some_target_rule:
  assumes "\<not> failing s Cat"
    and "remoteFile s = Json config"
  shows "fst (ValidateConfiguration s) = None \<longleftrightarrow>
           (\<exists>routing. Routing config = Some routing
              \<and> (\<exists>rule \<in> set (Rules routing). isTargetRule rule))"
  using assms by (simp add: ValidateConfiguration_eq split: option.split)

theorem C4_witness:
  "fst (ValidateConfiguration (router [dnsRule, defaultRule ''direct''] [] reliable)) = None
   \<and> fst (ValidateConfiguration (router [dnsRule] [] reliable)) \<noteq> None"
  using C4_validate_iff_some_target_rule
    [of "router [dnsRule, defaultRule ''direct''] [] reliable"
        "\<lparr>Routing = Some \<lparr>DomainStrategy = ''IPIfNonMatch'',
                           Rules = [dnsRule, defaultRule ''direct'']\<rparr>\<rparr>"]
    C4_validate_iff_some_target_rule
    [of "router [dnsRule] [] reliable"
        "\<lparr>Routing = Some \<lparr>DomainStrategy = ''IPIfNonMatch'', Rules = [dnsRule]\<rparr>\<rparr>"]
  by (simp add: reliable_def)

text \<open>
  C4 as stated has validation fail on two or more target rules. On a document with two
  target rules ValidateConfiguration returns no error.
\<close>

theorem C4_two_target_rules_counterexample:
  "fst (ValidateConfiguration
          (router [defaultRule ''direct'', defaultRule ''vless-reality''] [] reliable)) = None
   \<and> length (filter isTargetRule [defaultRule ''direct'', defaultRule ''vless-reality'']) = 2"
  by (simp add: ValidateConfiguration_eq reliable_def)

subsection \<open>C5: what a successful mutation writes\<close>

text \<open>
  C5. When setOutboundTag succeeds, the file it read decoded to a document with a routing
  section, and the document it wrote (the argument of the here-document, now the remote
  file) has the same domainStrategy and the same rules in the same order, but for the last
  rule, whose outboundTag is the new tag and whose type, inboundTag, network, domain, ip,
  port and protocol are those of the old last rule.
\<close>

theorem C5_only_last_outboundTag_changes:
  assumes "setOutboundTag T s = (None, s')"
  shows "\<exists>config routing config' routing'.
           remoteFile s = Json config \<and> Routing config = Some routing
         \<and> remoteFile s' = Json config' \<and> Routing config' = Some routing'
         \<and> CatHeredoc (Json config') \<in> set (executed s')
         \<and> DomainStrategy routing' = DomainStrategy routing
         \<and> Rules routing \<noteq> []
         \<and> Rules routing' =
               butlast (Rules routing) @ [(last (Rules routing))\<lparr>OutboundTag := T\<rparr>]
         \<and> length (Rules routing') = length (Rules routing)
         \<and> butlast (Rules routing') = butlast (Rules routing)
         \<and> OutboundTag (last (Rules routing')) = T
         \<and> Type (last (Rules routing')) = Type (last (Rules routing))
         \<and> InboundTag (last (Rules routing')) = InboundTag (last (Rules routing))
         \<and> Network (last (Rules routing')) = Network (last (Rules routing))
         \<and> Domain (last (Rules routing')) = Domain (last (Rules routing))
         \<and> IP (last (Rules routing')) = IP (last (Rules routing))
         \<and> Port (last (Rules routing')) = Port (last (Rules routing))
         \<and> Protocol (last (Rules routing')) = Protocol (last (Rules routing))"
proof -
  from assms obtain config routing where ok:
    "remoteFile s = Json config" "Routing config = Some routing" "Rules routing \<noteq> []"
    "s' = s\<lparr>executed := executed s @
             [Cat, CpBackup,
              CatHeredoc (Json (config\<lparr>Routing := Some (routing\<lparr>Rules :=
                 butlast (Rules routing) @ [(last (Rules routing))\<lparr>OutboundTag := T\<rparr>]\<rparr>)\<rparr>)),
              XkeenRestart],
           remoteFile := Json (config\<lparr>Routing := Some (routing\<lparr>Rules :=
                 butlast (Rules routing) @ [(last (Rules routing))\<lparr>OutboundTag := T\<rparr>]\<rparr>)\<rparr>)\<rparr>"
    by (rule setOutboundTag_success)
  define routing' where
    "routing' = routing\<lparr>Rules :=
        butlast (Rules routing) @ [(last (Rules routing))\<lparr>OutboundTag := T\<rparr>]\<rparr>"
  define config' where "config' = config\<lparr>Routing := Some routing'\<rparr>"
  have file': "remoteFile s' = Json config'"
    and log': "CatHeredoc (Json config') \<in> set (executed s')"
    using ok(4) by (simp_all add: config'_def routing'_def)
  have r': "Routing config' = Some routing'"
    by (simp add: config'_def)
  have rules': "Rules routing' =
      butlast (Rules routing) @ [(last (Rules routing))\<lparr>OutboundTag := T\<rparr>]"
    and ds: "DomainStrategy routing' = DomainStrategy routing"
    by (simp_all add: routing'_def)
  have len: "length (Rules routing') = length (Rules routing)"
    using ok(3) by (simp add: rules')
  have bl: "butlast (Rules routing') = butlast (Rules routing)"
    and la: "last (Rules routing') = (last (Rules routing))\<lparr>OutboundTag := T\<rparr>"
    by (simp_all add: rules')
  show ?thesis
    using ok(1,2,3) file' r' log' ds rules' len bl
    by (intro exI[of _ config] exI[of _ routing] exI[of _ config'] exI[of _ routing'])
       (simp add: la)
qed

theorem C5_witness:
  "setOutboundTag ''vless-reality'' (router [dnsRule, defaultRule ''direct''] [] reliable)
     = (None, snd (EnableVPN (router [dnsRule, defaultRule ''direct''] [] reliable)))
   \<and> remoteFile (snd (EnableVPN (router [dnsRule, defaultRule ''direct''] [] reliable)))
     = Json \<lparr>Routing = Some \<lparr>DomainStrategy = ''IPIfNonMatch'',
                               Rules = [dnsRule, defaultRule ''vless-reality'']\<rparr>\<rparr>"
proof -
  let ?s = "router [dnsRule, defaultRule ''direct''] [] reliable"
  let ?s' = "snd (EnableVPN ?s)"
  have run: "setOutboundTag ''vless-reality'' ?s = (None, ?s')"
    by (simp add: EnableVPN_def setOutboundTag_eq reliable_def Let_def)
  from C5_only_last_outboundTag_changes[OF run]
  obtain config routing config' routing' where
    "remoteFile ?s = Json config" "Routing config = Some routing"
    "remoteFile ?s' = Json config'" "Routing config' = Some routing'"
    "DomainStrategy routing' = DomainStrategy routing"
    "Rules routing' =
       butlast (Rules routing) @ [(last (Rules routing))\<lparr>OutboundTag := ''vless-reality''\<rparr>]"
    by blast
  then have "remoteFile ?s' = Json \<lparr>Routing = Some \<lparr>DomainStrategy = ''IPIfNonMatch'',
                               Rules = [dnsRule, defaultRule ''vless-reality'']\<rparr>\<rparr>"
    by (cases config'; cases routing') (auto simp: defaultRule_def)
  with run show ?thesis by simp
qed

subsection \<open>C6: an unknown tag is not an error, a missing rule is\<close>

text \<open>
  C6. When the file is read and decodes to a document with a routing section: if the first
  target rule in document order has an outbound tag other than "vless-reality" and
  "direct", GetStatus returns Unknown and no error; if no rule is a target rule, GetStatus
  returns the error "target routing rule not found".
\<close>

theorem C6_unknown_tag_is_not_an_error:
  assumes "\<not> failing s Cat"
    and "remoteFile s = Json config"
    and "Routing config = Some routing"
  shows "(\<forall>rule. List.find isTargetRule (Rules routing) = Some rule
             \<and> OutboundTag rule \<noteq> ''vless-reality'' \<and> OutboundTag rule \<noteq> ''direct''
            \<longrightarrow> fst (GetStatus s) = (VPNStatusUnknown, None))
       \<and> ((\<forall>rule \<in> set (Rules routing). \<not> isTargetRule rule)
            \<longrightarrow> fst (GetStatus s) = (VPNStatusUnknown, Some ErrTargetRuleNotFound))"
proof (intro conjI allI impI ballI)
  fix rule
  assume "List.find isTargetRule (Rules routing) = Some rule
            \<and> OutboundTag rule \<noteq> ''vless-reality'' \<and> OutboundTag rule \<noteq> ''direct''"
  with assms show "fst (GetStatus s) = (VPNStatusUnknown, None)"
    by (simp add: GetStatus_eq statusOfRules_find)
next
  assume "\<forall>rule \<in> set (Rules routing). \<not> isTargetRule rule"
  then have "List.find isTargetRule (Rules routing) = None"
    by (simp add: find_None_iff)
  with assms show "fst (GetStatus s) = (VPNStatusUnknown, Some ErrTargetRuleNotFound)"
    by (simp add: GetStatus_eq statusOfRules_find)
qed

text \<open>
  First a document whose first target rule has the tag "block" (a later one has "direct"),
  then a document with no target rule.
\<close>

theorem C6_witness:
  "List.find isTargetRule [dnsRule, defaultRule ''block'', defaultRule ''direct'']
     = Some (defaultRule ''block'')
   \<and> fst (GetStatus (router [dnsRule, defaultRule ''block'', defaultRule ''direct''] [] reliable))
     = (VPNStatusUnknown, None)
   \<and> list_all (\<lambda>rule. \<not> isTargetRule rule) [dnsRule]
   \<and> fst (GetStatus (router [dnsRule] [] reliable))
     = (VPNStatusUnknown, Some ErrTargetRuleNotFound)"
  using C6_unknown_tag_is_not_an_error
    [of "router [dnsRule, defaultRule ''block'', defaultRule ''direct''] [] reliable"
        "\<lparr>Routing = Some \<lparr>DomainStrategy = ''IPIfNonMatch'',
             Rules = [dnsRule, defaultRule ''block'', defaultRule ''direct'']\<rparr>\<rparr>"
        "\<lparr>DomainStrategy = ''IPIfNonMatch'',
             Rules = [dnsRule, defaultRule ''block'', defaultRule ''direct'']\<rparr>"]
    C6_unknown_tag_is_not_an_error
    [of "router [dnsRule] [] reliable"
        "\<lparr>Routing = Some \<lparr>DomainStrategy = ''IPIfNonMatch'', Rules = [dnsRule]\<rparr>\<rparr>"
        "\<lparr>DomainStrategy = ''IPIfNonMatch'', Rules = [dnsRule]\<rparr>"]
  by (simp add: reliable_def)

subsection \<open>C7: a failed restart\<close>

text \<open>
  C7. Take any run of setOutboundTag (so of EnableVPN or DisableVPN) and the commands it
  executed. If the here-document that writes the configuration is among them and did not
  fail, while \<^verbatim>\<open>xkeen -restart\<close> fails, the run returns no error: the file holds the
  written document, and the restart was the last command tried.
\<close>

theorem C7_restart_failure_not_surfaced:
  assumes "setOutboundTag T s = (err, s')"
    and "executed s' = executed s @ cmds"
    and "CatHeredoc c \<in> set cmds"
    and "\<not> failing s (CatHeredoc c)"
    and "failing s XkeenRestart"
  shows "err = None \<and> remoteFile s' = c \<and> last cmds = XkeenRestart"
  using assms
  by (auto simp: setOutboundTag_eq Let_def split: if_splits content.splits option.splits)

theorem C7_witness:
  "executed (snd (DisableVPN (router [dnsRule, defaultRule ''vless-reality''] [] restartBroken)))
     = [Cat, CpBackup,
        CatHeredoc (Json \<lparr>Routing = Some \<lparr>DomainStrategy = ''IPIfNonMatch'',
                               Rules = [dnsRule, defaultRule ''direct'']\<rparr>\<rparr>),
        XkeenRestart]
   \<and> restartBroken XkeenRestart
   \<and> fst (DisableVPN (router [dnsRule, defaultRule ''vless-reality''] [] restartBroken)) = None"
proof -
  let ?s = "router [dnsRule, defaultRule ''vless-reality''] [] restartBroken"
  let ?c = "Json \<lparr>Routing = Some \<lparr>DomainStrategy = ''IPIfNonMatch'',
                               Rules = [dnsRule, defaultRule ''direct'']\<rparr>\<rparr>"
  have log: "executed (snd (DisableVPN ?s)) = [Cat, CpBackup, CatHeredoc ?c, XkeenRestart]"
    by (simp add: DisableVPN_def setOutboundTag_eq restartBroken_def Let_def defaultRule_def
        isTargetRule_iff)
  have "fst (DisableVPN ?s) = None \<and> remoteFile (snd (DisableVPN ?s)) = ?c
      \<and> last [Cat, CpBackup, CatHeredoc ?c, XkeenRestart] = XkeenRestart"
    by (rule C7_restart_failure_not_surfaced
          [of "''direct''" ?s _ "snd (DisableVPN ?s)" _ ?c])
       (simp_all add: DisableVPN_def log[unfolded DisableVPN_def] restartBroken_def)
  with log show ?thesis by (simp add: restartBroken_def)
qed

subsection \<open>C8: the cache after authorizeUser and updateCachedStatus\<close>

text \<open>
  C8. After authorizeUser U S, getCachedStatus U is S. For a user U' that no operation
  since NewTelegramBot has authorized, updateCachedStatus U' S' leaves the map as it is,
  U' is still not authorized afterwards, and getCachedStatus U' is Unknown.
\<close>

theorem C8_authorize_then_cached_and_update_unauthorized:
  "getCachedStatus U (authorizeUser U S users) = S
   \<and> ((\<forall>S0. Authorize U' S0 \<notin> set ops) \<longrightarrow>
        updateCachedStatus U' S' (cacheRun NewTelegramBot ops) = cacheRun NewTelegramBot ops
        \<and> \<not> isUserAuthorized U' (updateCachedStatus U' S' (cacheRun NewTelegramBot ops))
        \<and> getCachedStatus U' (updateCachedStatus U' S' (cacheRun NewTelegramBot ops))
            = VPNStatusUnknown)"
proof (intro conjI impI)
  show "getCachedStatus U (authorizeUser U S users) = S"
    by (simp add: getCachedStatus_def authorizeUser_def)
next
  assume "\<forall>S0. Authorize U' S0 \<notin> set ops"
  then have none: "cacheRun NewTelegramBot ops U' = None"
    by (intro never_authorized) (simp_all add: NewTelegramBot_def)
  then show same: "updateCachedStatus U' S' (cacheRun NewTelegramBot ops)
      = cacheRun NewTelegramBot ops"
    by (simp add: updateCachedStatus_def)
  from none show "\<not> isUserAuthorized U' (updateCachedStatus U' S' (cacheRun NewTelegramBot ops))"
    by (simp add: same isUserAuthorized_def)
  from none show "getCachedStatus U' (updateCachedStatus U' S' (cacheRun NewTelegramBot ops))
      = VPNStatusUnknown"
    by (simp add: same getCachedStatus_def)
qed

theorem C8_witness:
  "getCachedStatus 7 (authorizeUser 7 VPNStatusEnabled NewTelegramBot) = VPNStatusEnabled
   \<and> (\<forall>S0. Authorize 42 S0 \<notin> set [Authorize 7 VPNStatusEnabled, Update 42 VPNStatusDisabled,
                                       GetCached 42, IsAuthorized 7])
   \<and> updateCachedStatus 42 VPNStatusEnabled
        (cacheRun NewTelegramBot [Authorize 7 VPNStatusEnabled, Update 42 VPNStatusDisabled,
                                  GetCached 42, IsAuthorized 7])
      = cacheRun NewTelegramBot [Authorize 7 VPNStatusEnabled, Update 42 VPNStatusDisabled,
                                 GetCached 42, IsAuthorized 7]
   \<and> getCachedStatus 42 (updateCachedStatus 42 VPNStatusEnabled
        (cacheRun NewTelegramBot [Authorize 7 VPNStatusEnabled, Update 42 VPNStatusDisabled,
                                  GetCached 42, IsAuthorized 7]))
      = VPNStatusUnknown"
proof -
  have never: "\<forall>S0. Authorize 42 S0 \<notin> set [Authorize 7 VPNStatusEnabled,
      Update 42 VPNStatusDisabled, GetCached 42, IsAuthorized 7]"
    by simp
  from never
    C8_authorize_then_cached_and_update_unauthorized
      [of 7 VPNStatusEnabled NewTelegramBot 42
          "[Authorize 7 VPNStatusEnabled, Update 42 VPNStatusDisabled, GetCached 42,
            IsAuthorized 7]" VPNStatusEnabled]
  show ?thesis by blast
qed

subsection \<open>C9: authorization is never taken back\<close>

text \<open>
  C9. Once isUserAuthorized U holds, it holds after any sequence of cache operations:
  authorizeUser and updateCachedStatus of any user, and the two readers.
\<close>

theorem C9_authorization_is_monotone:
  "isUserAuthorized U users \<Longrightarrow> isUserAuthorized U (cacheRun users ops)"
  unfolding cacheRun_def
  by (induction ops arbitrary: users) (simp_all add: cacheStep_keeps_authorized)

theorem C9_witness:
  "isUserAuthorized 7 (authorizeUser 7 VPNStatusUnknown NewTelegramBot)
   \<and> isUserAuthorized 7
        (cacheRun (authorizeUser 7 VPNStatusUnknown NewTelegramBot)
           [Update 7 VPNStatusEnabled, Authorize 42 VPNStatusDisabled, GetCached 7,
            Update 42 VPNStatusEnabled, IsAuthorized 42, Authorize 7 VPNStatusDisabled])"
proof -
  have start: "isUserAuthorized 7 (authorizeUser 7 VPNStatusUnknown NewTelegramBot)"
    by (simp add: isUserAuthorized_def authorizeUser_def)
  from start C9_authorization_is_monotone[OF start] show ?thesis by simp
qed

subsection \<open>C10: the service status classifier\<close>

text \<open>
  C10, as amended. When \<^verbatim>\<open>xkeen -status\<close> runs without error, its output has exactly one
  cleaned text in the sense of \<open>cleanedAs\<close>: the lines are trimmed, the empty lines and
  every line containing "applet not found" (with or without "ps: ", and whatever else the
  line carries) are dropped, the colour codes are removed with and without their ESC
  character, and the result is trimmed. The reply is "stopped" exactly when the cleaned text
  contains the "not started" phrase; it is "running" exactly when the cleaned text does not
  contain that phrase and is not empty, whether or not it contains the "started" phrase; and
  it is "unknown" exactly when the cleaned text is empty.
\<close>

theorem C10_classifier_on_cleaned_output:
  assumes "\<not> failing s XkeenStatus"
  shows "\<exists>t. cleanedAs (statusOutput s) t
           \<and> (\<forall>t'. cleanedAs (statusOutput s) t' \<longrightarrow> t' = t)
           \<and> (fst (handleServiceStatus s) = ServiceStopped \<longleftrightarrow> sublist ne_zapushchen t)
           \<and> (fst (handleServiceStatus s) = ServiceRunning \<longleftrightarrow>
                 \<not> sublist ne_zapushchen t \<and> t \<noteq> [])
           \<and> (fst (handleServiceStatus s) = ServiceUnknown \<longleftrightarrow> t = [])"
proof -
  define t where
    "t = cleanStatusText
           (strings_Join (cleanLines (strings_Split (statusOutput s) (CHR 0x0A))) [CHR 0x0A])"
  have ne: "ne_zapushchen \<noteq> []" and za: "zapushchen \<noteq> []"
    by (simp_all add: ne_zapushchen_def zapushchen_def)
  have reply: "fst (handleServiceStatus s) =
      (if strings_Contains t ne_zapushchen then ServiceStopped
       else if strings_Contains t zapushchen \<or> t \<noteq> [] then ServiceRunning
       else ServiceUnknown)"
    unfolding t_def
    using assms Contains_nonempty[OF _ ne] Contains_nonempty[OF _ za]
    by (auto simp: handleServiceStatus_def GetVPNServiceStatus_def GetServiceStatus_eq Let_def)
  have "cleanedAs (statusOutput s) t"
    and "\<forall>t'. cleanedAs (statusOutput s) t' \<longrightarrow> t' = t"
    by (simp_all add: cleanedAs_iff t_def)
  moreover have "fst (handleServiceStatus s) = ServiceStopped \<longleftrightarrow> sublist ne_zapushchen t"
    by (simp add: reply strings_Contains_def)
  moreover have "fst (handleServiceStatus s) = ServiceRunning \<longleftrightarrow>
      \<not> sublist ne_zapushchen t \<and> t \<noteq> []"
    using Contains_nonempty[OF _ za, of t] by (auto simp: reply strings_Contains_def)
  moreover have "fst (handleServiceStatus s) = ServiceUnknown \<longleftrightarrow> t = []"
    using Contains_nonempty[OF _ ne, of t] Contains_nonempty[OF _ za, of t]
    by (auto simp: reply strings_Contains_def)
  ultimately show ?thesis by blast
qed

text \<open>
  Three outputs: the coloured diagnostic line and a coloured line with the "not started"
  phrase (stopped); a line without either phrase (running); the diagnostic line alone
  (unknown).
\<close>

theorem C10_witness:
  "\<not> reliable XkeenStatus
   \<and> fst (handleServiceStatus (router [] stoppedOutput reliable)) = ServiceStopped
   \<and> (\<exists>t. cleanedAs stoppedOutput t \<and> sublist ne_zapushchen t)
   \<and> fst (handleServiceStatus (router [] ''xray is up\<newline>'' reliable)) = ServiceRunning
   \<and> (\<exists>t. cleanedAs ''xray is up\<newline>'' t \<and> \<not> sublist zapushchen t \<and> t \<noteq> [])
   \<and> fst (handleServiceStatus (router [] ''ps: applet not found\<newline>'' reliable)) = ServiceUnknown
   \<and> cleanedAs ''ps: applet not found\<newline>'' []"
proof -
  have ok: "\<not> failing (router [] raw reliable) XkeenStatus" for raw
    by (simp add: reliable_def)
  have 1: "fst (handleServiceStatus (router [] stoppedOutput reliable)) = ServiceStopped"
    by code_simp
  have 2: "fst (handleServiceStatus (router [] ''xray is up\<newline>'' reliable)) = ServiceRunning"
    by code_simp
  have 3: "fst (handleServiceStatus (router [] ''ps: applet not found\<newline>'' reliable))
      = ServiceUnknown"
    by code_simp
  have up: "cleanStatusText (strings_Join (cleanLines
      (strings_Split ''xray is up\<newline>'' (CHR 0x0A))) [CHR 0x0A]) = ''xray is up''"
    by code_simp
  have plain: "\<not> sublist zapushchen ''xray is up''"
    by code_simp
  from C10_classifier_on_cleaned_output[OF ok, of stoppedOutput] 1
  have a: "\<exists>t. cleanedAs stoppedOutput t \<and> sublist ne_zapushchen t"
    by auto
  from C10_classifier_on_cleaned_output[OF ok, of "''xray is up\<newline>''"] 2
  obtain t where t: "cleanedAs ''xray is up\<newline>'' t" "t \<noteq> []"
    by auto
  from t(1) up have "t = ''xray is up''"
    by (simp add: cleanedAs_iff)
  with t plain have b: "\<exists>t. cleanedAs ''xray is up\<newline>'' t \<and> \<not> sublist zapushchen t \<and> t \<noteq> []"
    by blast
  from C10_classifier_on_cleaned_output[OF ok, of "''ps: applet not found\<newline>''"] 3
  have c: "cleanedAs ''ps: applet not found\<newline>'' []"
    by auto
  from 1 2 3 a b c show ?thesis
    by (simp add: reliable_def)
qed

text \<open>
  C10 as stated strips the "ps: applet not found" diagnostic lines, the ANSI colour
  sequences and the surrounding white space. The one-line output
  \<^verbatim>\<open>xray <not started>, applet not found\<close> has nothing of that to strip: it does not contain
  "ps: applet not found", it has no ESC and no newline, and trimming leaves it as it is.
  It contains the "not started" phrase, so the claim has it "not running"; the code drops
  the whole line, because it contains "applet not found", and replies "unknown".
\<close>

theorem C10_applet_line_counterexample:
  "\<not> sublist ''ps: applet not found'' mixedLineOutput
   \<and> CHR 0x1B \<notin> set mixedLineOutput
   \<and> CHR 0x0A \<notin> set mixedLineOutput
   \<and> trimOf mixedLineOutput mixedLineOutput
   \<and> sublist ne_zapushchen mixedLineOutput
   \<and> fst (handleServiceStatus (router [] mixedLineOutput reliable)) = ServiceUnknown"
proof -
  have "strings_TrimSpace mixedLineOutput = mixedLineOutput" by code_simp
  then have "trimOf mixedLineOutput mixedLineOutput" by (simp add: trimOf_iff)
  moreover have "\<not> sublist ''ps: applet not found'' mixedLineOutput" by code_simp
  moreover have "CHR 0x1B \<notin> set mixedLineOutput" and "CHR 0x0A \<notin> set mixedLineOutput"
    by code_simp+
  moreover have "sublist ne_zapushchen mixedLineOutput" by code_simp
  moreover have "fst (handleServiceStatus (router [] mixedLineOutput reliable)) = ServiceUnknown"
    by code_simp
  ultimately show ?thesis by blast
qed

text \<open>
  The other way round: an output with no ESC in it, so with no ANSI sequence, that does
  not contain the "not started" phrase is still answered "stopped", because removing the
  bare \<^verbatim>\<open>[31m\<close> puts the phrase together.
\<close>

lemma bare_colour_code_makes_the_phrase:
  "CHR 0x1B \<notin> set bareCodeOutput
   \<and> \<not> sublist ne_zapushchen bareCodeOutput
   \<and> fst (handleServiceStatus (router [] bareCodeOutput reliable)) = ServiceStopped"
proof -
  have "CHR 0x1B \<notin> set bareCodeOutput" by code_simp
  moreover have "\<not> sublist ne_zapushchen bareCodeOutput" by code_simp
  moreover have "fst (handleServiceStatus (router [] bareCodeOutput reliable)) = ServiceStopped"
    by code_simp
  ultimately show ?thesis by blast
qed

end
